theory Spec2Isabelle
  imports Main "HOL-Library.AList"
begin

section \<open>Data model of the suggestion hook\<close>

text \<open>
  The hook \<open>useAISuggestions\<close> keeps a local list of \<open>SuggestionState\<close> values (its
  React state \<open>suggestions\<close>), changes it from a change feed, and records feedback in
  two remote tables. The state container is modelled by explicit state passing: every
  \<open>setSuggestions(f)\<close> of the source is the function \<open>f\<close> applied to the current list.
\<close>

text \<open>
  Modelled from the spec: the type \<open>AIMessageSuggestion\<close> is imported by the source
  from \<open>@/types/ai-suggestion\<close>, which is not among the source files. Its status is one of
  pending, accepted and rejected; the source compares it with the strings
  \<open>'accepted'\<close> and \<open>'rejected'\<close>.
\<close>

datatype suggestion_status = Pending | Accepted | Rejected

text \<open>
  Modelled from the spec: the metadata of a suggestion, of which the source reads
  \<open>trace_id\<close>, \<open>model\<close> and \<open>tokens_used.total_tokens\<close>, each of them optional.
\<close>

record suggestion_metadata =
  trace_id :: "string option"
  model :: "string option"
  total_tokens :: "nat option"

text \<open>
  Modelled from the spec: the fields of a suggestion that the source reads. Timestamps
  are ISO strings in the source, read back with \<open>new Date(...).getTime()\<close>; the model
  holds them as milliseconds since the epoch.
\<close>

record AIMessageSuggestion =
  sg_id :: string
  sg_ticket_id :: string
  suggested_response :: string
  sg_status :: suggestion_status
  sg_metadata :: "suggestion_metadata option"
  created_at :: int
  updated_at :: int

datatype view_status = Loading | Success | Failed

record SuggestionState =
  suggestion :: AIMessageSuggestion
  status :: view_status
  error_msg :: "string option"

section \<open>The change-feed handler\<close>

text \<open>
  The payload of a \<open>postgres_changes\<close> event: \<open>payload.new\<close> for INSERT and UPDATE,
  \<open>payload.old.id\<close> for DELETE.
\<close>

datatype change_event =
    INSERT AIMessageSuggestion
  | UPDATE AIMessageSuggestion
  | DELETE string

definition remove_id :: "string \<Rightarrow> SuggestionState list \<Rightarrow> SuggestionState list" where
  "remove_id i currentSuggestions = filter (\<lambda>s. sg_id (suggestion s) \<noteq> i) currentSuggestions"

fun on_change :: "change_event \<Rightarrow> SuggestionState list \<Rightarrow> SuggestionState list" where
  "on_change (INSERT newSuggestion) currentSuggestions =
     (if list_ex (\<lambda>s. sg_id (suggestion s) = sg_id newSuggestion) currentSuggestions
      then currentSuggestions
      else currentSuggestions @
             [\<lparr>suggestion = newSuggestion, status = Success, error_msg = None\<rparr>])"
| "on_change (DELETE old_id) currentSuggestions = remove_id old_id currentSuggestions"
| "on_change (UPDATE updatedSuggestion) currentSuggestions =
     (if sg_status updatedSuggestion = Accepted \<or> sg_status updatedSuggestion = Rejected
      then remove_id (sg_id updatedSuggestion) currentSuggestions
      else map (\<lambda>s. if sg_id (suggestion s) = sg_id updatedSuggestion
                     then s\<lparr>suggestion := updatedSuggestion\<rparr> else s)
             currentSuggestions)"

text \<open>The ids held by the local list, in order.\<close>

definition ids :: "SuggestionState list \<Rightarrow> string list" where
  "ids currentSuggestions = map (\<lambda>s. sg_id (suggestion s)) currentSuggestions"

section \<open>The edit-distance helper\<close>

text \<open>
  \<open>calculateEditDistance\<close> fills a table of \<open>(m + 1) \<times> (n + 1)\<close> numbers, row by row and
  column by column, and returns its last cell. The table is a list of rows; a string is
  the list of its code units (\<open>str[i]\<close> reads one of them), so the functions are
  polymorphic in the element type. The entries are counts bounded by the lengths of the
  strings, hence natural numbers. Every index the loops read or write is inside the
  table: \<open>i \<le> m\<close>, \<open>j \<le> n\<close>, and the cells at \<open>i - 1\<close> and \<open>j - 1\<close> are read only
  when \<open>i\<close> and \<open>j\<close> are positive.
\<close>

definition dp_init :: "nat \<Rightarrow> nat \<Rightarrow> nat list list" where
  "dp_init m n = replicate (m + 1) (replicate (n + 1) 0)"

definition dp_cell :: "'a list \<Rightarrow> 'a list \<Rightarrow> nat list list \<Rightarrow> nat \<Rightarrow> nat \<Rightarrow> nat" where
  "dp_cell str1 str2 dp i j =
     (if i = 0 then j
      else if j = 0 then i
      else if str1 ! (i - 1) = str2 ! (j - 1) then dp ! (i - 1) ! (j - 1)
      else 1 + min (dp ! (i - 1) ! j) (min (dp ! i ! (j - 1)) (dp ! (i - 1) ! (j - 1))))"

definition dp_set :: "nat list list \<Rightarrow> nat \<Rightarrow> nat \<Rightarrow> nat \<Rightarrow> nat list list" where
  "dp_set dp i j v = dp[i := (dp ! i)[j := v]]"

definition inner_loop ::
  "'a list \<Rightarrow> 'a list \<Rightarrow> nat \<Rightarrow> nat \<Rightarrow> nat list list \<Rightarrow> nat list list" where
  "inner_loop str1 str2 n i dp =
     fold (\<lambda>j dp. dp_set dp i j (dp_cell str1 str2 dp i j)) [0..<n + 1] dp"

definition outer_loop ::
  "'a list \<Rightarrow> 'a list \<Rightarrow> nat \<Rightarrow> nat \<Rightarrow> nat list list \<Rightarrow> nat list list" where
  "outer_loop str1 str2 m n dp = fold (\<lambda>i dp. inner_loop str1 str2 n i dp) [0..<m + 1] dp"

definition calculateEditDistance :: "'a list \<Rightarrow> 'a list \<Rightarrow> nat" where
  "calculateEditDistance str1 str2 =
     (let m = length str1; n = length str2;
          dp = outer_loop str1 str2 m n (dp_init m n)
      in dp ! m ! n)"

subsection \<open>What the helper is compared with\<close>

text \<open>
  The recurrence of the Levenshtein distance, written on the lists themselves. It is not
  taken from the source: it is the reference that the table is proved to agree with.
\<close>

fun levenshtein :: "'a list \<Rightarrow> 'a list \<Rightarrow> nat" where
  "levenshtein [] ys = length ys"
| "levenshtein xs [] = length xs"
| "levenshtein (x # xs) (y # ys) =
     (if x = y then levenshtein xs ys
      else 1 + min (levenshtein xs (y # ys)) (min (levenshtein (x # xs) ys) (levenshtein xs ys)))"

text \<open>
  One single-character operation, at any position of the string: insert a character,
  delete one, or put another in its place.
\<close>

inductive edit_step :: "'a list \<Rightarrow> 'a list \<Rightarrow> bool" where
  insert: "edit_step (as @ bs) (as @ c # bs)"
| delete: "edit_step (as @ c # bs) (as @ bs)"
| substitute: "edit_step (as @ c # bs) (as @ d # bs)"

text \<open>\<open>edits n xs ys\<close>: some sequence of \<open>n\<close> operations transforms \<open>xs\<close> into \<open>ys\<close>.\<close>

inductive edits :: "nat \<Rightarrow> 'a list \<Rightarrow> 'a list \<Rightarrow> bool" where
  none: "edits 0 xs xs"
| more: "edits n xs ys \<Longrightarrow> edit_step ys zs \<Longrightarrow> edits (Suc n) xs zs"

text \<open>The distance between the prefixes of lengths \<open>i\<close> and \<open>j\<close>, which cell \<open>(i, j)\<close> is to hold.\<close>

definition prefix_distance :: "'a list \<Rightarrow> 'a list \<Rightarrow> nat \<Rightarrow> nat \<Rightarrow> nat" where
  "prefix_distance str1 str2 i j = levenshtein (rev (take i str1)) (rev (take j str2))"

text \<open>
  The invariant of the two loops at the moment cell \<open>(i, j)\<close> is about to be written: the
  table has its shape, and every cell before \<open>(i, j)\<close> in row-major order holds the
  distance of its prefixes.
\<close>

definition dp_inv :: "'a list \<Rightarrow> 'a list \<Rightarrow> nat list list \<Rightarrow> nat \<Rightarrow> nat \<Rightarrow> bool" where
  "dp_inv str1 str2 dp i j \<longleftrightarrow>
     length dp = length str1 + 1 \<and>
     (\<forall>r < length dp. length (dp ! r) = length str2 + 1) \<and>
     (\<forall>i' j'. i' \<le> length str1 \<longrightarrow> j' \<le> length str2 \<longrightarrow> (i' < i \<or> (i' = i \<and> j' < j)) \<longrightarrow>
         dp ! i' ! j' = prefix_distance str1 str2 i' j')"

section \<open>Recording feedback\<close>

subsection \<open>Values of JavaScript\<close>

text \<open>
  An optional string is \<open>undefined\<close>/\<open>null\<close> or a string. It is falsy when it is missing or
  empty: \<open>!user?.id\<close>, \<open>feedback.feedback_reason || null\<close> and
  \<open>feedback.agent_response ? ... : null\<close> test exactly that.
\<close>

definition truthy :: "string option \<Rightarrow> bool" where
  "truthy v = (case v of None \<Rightarrow> False | Some s \<Rightarrow> s \<noteq> [])"

definition or_null :: "string option \<Rightarrow> string option" where
  "or_null v = (if truthy v then v else None)"

text \<open>What the source throws: an \<open>Error\<close> with a message, or the error object of a remote call.\<close>

datatype error = Error string | PostgrestError string

subsection \<open>The feedback submission and the remote tables\<close>

text \<open>
  Modelled from the spec: the type \<open>AIFeedback\<close> is imported from
  \<open>@/types/ai-suggestion\<close>, which is not among the source files. The feedback type is one
  of approval, rejection and revision; reason, agent response and metadata are optional.
\<close>

datatype feedback_kind = Approval | Rejection | Revision

record AIFeedback =
  suggestion_id :: string
  ticket_id :: string
  feedback_type :: feedback_kind
  feedback_reason :: "string option"
  agent_response :: "string option"
  metadata :: "(string \<times> string) list option"
  fb_updated_at :: int

record TicketMessage =
  msg_id :: string
  content :: string
  is_ai_generated :: bool
  msg_created_at :: int

text \<open>The fields of a row of \<open>tickets\<close>, joined with its messages, that the source reads.\<close>

record ticket =
  tk_id :: string
  title :: string
  description :: string
  priority :: string
  messages :: "TicketMessage list"

text \<open>The object that the source inserts into \<open>ai_feedback_events\<close>, field by field.\<close>

record feedback_event =
  row_suggestion_id :: string
  row_ticket_id :: string
  row_agent_id :: string
  row_feedback_type :: feedback_kind
  row_feedback_reason :: "string option"
  row_agent_response :: "string option"
  row_time_to_feedback :: string
  row_metadata :: "(string \<times> string) list"
  row_created_at :: int
  row_updated_at :: int

subsection \<open>The observability trace\<close>

record history_entry =
  h_content :: string
  h_is_ai_generated :: bool
  h_created_at :: int
  h_type :: string

record trace_input =
  original_suggestion :: AIMessageSuggestion
  ticket_context :: ticket
  conversation_history :: "history_entry list"
  in_feedback_type :: feedback_kind
  in_feedback_reason :: "string option"
  in_agent_id :: string

text \<open>
  A span with the metadata its \<open>update\<close> call gives it: the level, and the error on the
  failing path. The inputs of the spans repeat the arguments of the remote call and are
  left out.
\<close>

record span =
  span_name :: string
  span_level :: string
  span_error :: "string option"

record trace_output =
  out_status :: string
  out_feedback_type :: feedback_kind
  processed_at :: int
  processing_time_ms :: int
  time_to_feedback_ms :: int
  was_edited :: bool
  partial_use :: bool
  quality_score :: nat
  out_new_status :: suggestion_status
  update_timestamp :: int
  out_agent_response :: "string option"
  edit_distance :: "nat option"
  response_length :: nat
  response_tokens :: nat
  total_interaction_time_ms :: int

record trace =
  trace_ident :: string
  trace_name :: string
  sessionId :: "string option"
  trace_in :: trace_input
  spans :: "span list"
  trace_out :: "trace_output option"

text \<open>
  Everything outside the hook that \<open>storeFeedback\<close> reads or writes: the three tables and
  the traces handed to the tracing client.
\<close>

record world =
  ai_suggestions :: "AIMessageSuggestion list"
  tickets :: "ticket list"
  ai_feedback_events :: "feedback_event list"
  langfuse_traces :: "trace list"

text \<open>
  What the surroundings decide during one call: the three readings of the clock, the
  identifier the tracing client gives the new trace, and the \<open>error\<close> field of the answers
  to the two remote writes (\<open>None\<close>: the write is done; \<open>Some e\<close>: it is refused with
  \<open>e\<close> and the table stays as it was).
\<close>

record env =
  now :: int
  feedbackStartTime :: int
  feedbackEndTime :: int
  fresh_trace_id :: string
  suggestionError :: "string option"
  feedbackError :: "string option"

subsection \<open>The steps of \<open>storeFeedback\<close>\<close>

text \<open>\<open>.select('*').eq(...).single()\<close>: the row when exactly one matches, otherwise no data.\<close>

definition single_row :: "'a list \<Rightarrow> 'a option" where
  "single_row rows = (case rows of [r] \<Rightarrow> Some r | _ \<Rightarrow> None)"

definition select_suggestion :: "world \<Rightarrow> string \<Rightarrow> AIMessageSuggestion option" where
  "select_suggestion w i = single_row (filter (\<lambda>s. sg_id s = i) (ai_suggestions w))"

definition select_ticket :: "world \<Rightarrow> string \<Rightarrow> ticket option" where
  "select_ticket w i = single_row (filter (\<lambda>t. tk_id t = i) (tickets w))"

definition new_status :: "feedback_kind \<Rightarrow> suggestion_status" where
  "new_status t = (if t = Approval then Accepted else Rejected)"

text \<open>Step A: \<open>.update({status, updated_at}).eq('id', feedback.suggestion_id)\<close>.\<close>

definition update_status ::
  "string \<Rightarrow> suggestion_status \<Rightarrow> int \<Rightarrow> AIMessageSuggestion list \<Rightarrow> AIMessageSuggestion list" where
  "update_status i st t rows =
     map (\<lambda>s. if sg_id s = i then s\<lparr>sg_status := st, updated_at := t\<rparr> else s) rows"

text \<open>Step B: the row handed to \<open>.insert(...)\<close>.\<close>

definition feedback_row :: "string \<Rightarrow> env \<Rightarrow> AIFeedback \<Rightarrow> feedback_event" where
  "feedback_row agent e feedback =
     \<lparr>row_suggestion_id = suggestion_id feedback,
      row_ticket_id = ticket_id feedback,
      row_agent_id = agent,
      row_feedback_type = feedback_type feedback,
      row_feedback_reason = or_null (feedback_reason feedback),
      row_agent_response = or_null (agent_response feedback),
      row_time_to_feedback = ''0 seconds'',
      row_metadata =
        AList.update ''trace_id'' (fresh_trace_id e)
          (case metadata feedback of None \<Rightarrow> [] | Some md \<Rightarrow> md),
      row_created_at = now e,
      row_updated_at = now e\<rparr>"

definition history :: "TicketMessage list \<Rightarrow> history_entry list" where
  "history msgs =
     map (\<lambda>msg. \<lparr>h_content = content msg, h_is_ai_generated = is_ai_generated msg,
                  h_created_at = msg_created_at msg,
                  h_type = (if is_ai_generated msg then ''agent'' else ''customer'')\<rparr>)
       (sort_key msg_created_at msgs)"

definition feedbackTrace ::
  "string \<Rightarrow> env \<Rightarrow> AIMessageSuggestion \<Rightarrow> ticket \<Rightarrow> AIFeedback \<Rightarrow> trace" where
  "feedbackTrace agent e sg tk feedback =
     \<lparr>trace_ident = fresh_trace_id e,
      trace_name = ''suggestion-feedback'',
      sessionId = (case sg_metadata sg of None \<Rightarrow> None | Some md \<Rightarrow> trace_id md),
      trace_in = \<lparr>original_suggestion = sg, ticket_context = tk,
               conversation_history = history (messages tk),
               in_feedback_type = feedback_type feedback,
               in_feedback_reason = feedback_reason feedback,
               in_agent_id = agent\<rparr>,
      spans = [],
      trace_out = None\<rparr>"

definition trace_result :: "env \<Rightarrow> AIMessageSuggestion \<Rightarrow> AIFeedback \<Rightarrow> trace_output" where
  "trace_result e sg feedback =
     (let feedbackProcessingTime = feedbackEndTime e - feedbackStartTime e;
          timeToFeedback = now e - created_at sg
      in \<lparr>out_status = ''processed'',
          out_feedback_type = feedback_type feedback,
          processed_at = now e,
          processing_time_ms = feedbackProcessingTime,
          time_to_feedback_ms = timeToFeedback,
          was_edited = (updated_at sg \<noteq> created_at sg),
          partial_use =
            (case metadata feedback of None \<Rightarrow> False
             | Some md \<Rightarrow> truthy (map_of md ''partial_use'')),
          quality_score = (if feedback_type feedback = Approval then 1 else 0),
          out_new_status = new_status (feedback_type feedback),
          update_timestamp = now e,
          out_agent_response = agent_response feedback,
          edit_distance =
            (case agent_response feedback of
               None \<Rightarrow> None
             | Some r \<Rightarrow> if r = [] then None
                         else Some (calculateEditDistance (suggested_response sg) r)),
          response_length = length (suggested_response sg),
          response_tokens =
            (case sg_metadata sg of None \<Rightarrow> 0
             | Some md \<Rightarrow> (case total_tokens md of None \<Rightarrow> 0 | Some k \<Rightarrow> k)),
          total_interaction_time_ms = timeToFeedback + feedbackProcessingTime\<rparr>)"

definition error_span :: "string \<Rightarrow> string \<Rightarrow> span" where
  "error_span n err = \<lparr>span_name = n, span_level = ''error'', span_error = Some err\<rparr>"

definition success_span :: "string \<Rightarrow> span" where
  "success_span n = \<lparr>span_name = n, span_level = ''success'', span_error = None\<rparr>"

subsection \<open>\<open>storeFeedback\<close>\<close>

text \<open>
  The function returns the world it leaves behind together with its outcome: \<open>Inl\<close> the
  error it throws, \<open>Inr ()\<close> when it returns. \<open>user_id\<close> is \<open>user?.id\<close> of the closure; the
  source waits half a second and tests the same value again.
\<close>

definition storeFeedback ::
  "string option \<Rightarrow> env \<Rightarrow> world \<Rightarrow> AIFeedback \<Rightarrow> world \<times> (error + unit)" where
  "storeFeedback user_id e w feedback =
     (case user_id of
        None \<Rightarrow> (w, Inl (Error ''No user ID available''))
      | Some agent \<Rightarrow>
     if agent = [] then (w, Inl (Error ''No user ID available''))
     else
     (case select_suggestion w (suggestion_id feedback) of
        None \<Rightarrow> (w, Inl (Error ''Suggestion not found''))
      | Some sg \<Rightarrow>
     (case select_ticket w (ticket_id feedback) of
        None \<Rightarrow> (w, Inl (Error ''Ticket not found''))
      | Some tk \<Rightarrow>
     let tr = feedbackTrace agent e sg tk feedback in
     (case suggestionError e of
        Some err \<Rightarrow>
          (w\<lparr>langfuse_traces := langfuse_traces w @
                [tr\<lparr>spans := [error_span ''update-suggestion-status'' err]\<rparr>]\<rparr>,
           Inl (PostgrestError err))
      | None \<Rightarrow>
     let w1 = w\<lparr>ai_suggestions :=
                  update_status (suggestion_id feedback) (new_status (feedback_type feedback))
                    (now e) (ai_suggestions w)\<rparr> in
     (case feedbackError e of
        Some err \<Rightarrow>
          (w1\<lparr>langfuse_traces := langfuse_traces w @
                [tr\<lparr>spans := [success_span ''update-suggestion-status'',
                                error_span ''store-feedback-event'' err]\<rparr>]\<rparr>,
           Inl (PostgrestError err))
      | None \<Rightarrow>
          (w1\<lparr>ai_feedback_events := ai_feedback_events w @ [feedback_row agent e feedback],
              langfuse_traces := langfuse_traces w @
                [tr\<lparr>spans := [success_span ''update-suggestion-status'',
                                success_span ''store-feedback-event''],
                    trace_out := Some (trace_result e sg feedback)\<rparr>]\<rparr>,
           Inr ()))))))"

section \<open>Accepting and rejecting\<close>

text \<open>
  The two callbacks work on the current list (the argument of the updater handed to
  \<open>setSuggestions\<close>) and on the world; \<open>rejectSuggestion\<close> also reads \<open>suggestions\<close>, the
  list its closure holds. \<open>called_at\<close> is the clock reading stored in the submission.
\<close>

text \<open>The submissions that the two callbacks build (\<open>const feedback: AIFeedback = ...\<close>).\<close>

definition approval_feedback :: "string \<Rightarrow> int \<Rightarrow> string \<Rightarrow> AIFeedback" where
  "approval_feedback ticketId called_at sid =
     \<lparr>suggestion_id = sid, ticket_id = ticketId, feedback_type = Approval,
      feedback_reason = None, agent_response = None, metadata = None,
      fb_updated_at = called_at\<rparr>"

definition rejection_feedback ::
  "string \<Rightarrow> int \<Rightarrow> string \<Rightarrow> string \<Rightarrow> string option \<Rightarrow> AIFeedback" where
  "rejection_feedback ticketId called_at sid reason additionalFeedback =
     \<lparr>suggestion_id = sid, ticket_id = ticketId, feedback_type = Rejection,
      feedback_reason = Some reason, agent_response = None,
      metadata = (case additionalFeedback of
                    None \<Rightarrow> None
                  | Some a \<Rightarrow> if a = [] then None else Some [(''additional_feedback'', a)]),
      fb_updated_at = called_at\<rparr>"

definition acceptSuggestion ::
  "string option \<Rightarrow> env \<Rightarrow> string \<Rightarrow> int \<Rightarrow> SuggestionState list \<times> world \<Rightarrow> string \<Rightarrow>
   (SuggestionState list \<times> world) \<times> (error + unit)" where
  "acceptSuggestion user_id e ticketId called_at st sid =
     (let feedback = approval_feedback ticketId called_at sid;
          (w', r) = storeFeedback user_id e (snd st) feedback
      in case r of
           Inl err \<Rightarrow> ((fst st, w'), Inl err)
         | Inr u \<Rightarrow> ((remove_id sid (fst st), w'), Inr ()))"

definition rejectSuggestion ::
  "string option \<Rightarrow> env \<Rightarrow> string \<Rightarrow> int \<Rightarrow> SuggestionState list \<Rightarrow>
   SuggestionState list \<times> world \<Rightarrow> string \<Rightarrow> string \<Rightarrow> string option \<Rightarrow>
   (SuggestionState list \<times> world) \<times> (error + unit)" where
  "rejectSuggestion user_id e ticketId called_at suggestions st sid reason additionalFeedback =
     (let feedback = rejection_feedback ticketId called_at sid reason additionalFeedback;
          removed = remove_id sid (fst st);
          (w', r) = storeFeedback user_id e (snd st) feedback
      in case r of
           Inr u \<Rightarrow> ((removed, w'), Inr ())
         | Inl err \<Rightarrow>
             (case find (\<lambda>s. sg_id (suggestion s) = sid) suggestions of
                Some failedSuggestion \<Rightarrow> ((removed @ [failedSuggestion], w'), Inl err)
              | None \<Rightarrow> ((removed, w'), Inl err)))"

section \<open>Concrete inputs\<close>

text \<open>Concrete suggestions used to run the definitions.\<close>

definition mk_suggestion :: "string \<Rightarrow> suggestion_status \<Rightarrow> AIMessageSuggestion" where
  "mk_suggestion i st =
     \<lparr>sg_id = i, sg_ticket_id = ''t1'', suggested_response = ''kitten'', sg_status = st,
      sg_metadata = None, created_at = 1000, updated_at = 1000\<rparr>"

definition mk_state :: "string \<Rightarrow> suggestion_status \<Rightarrow> SuggestionState" where
  "mk_state i st = \<lparr>suggestion = mk_suggestion i st, status = Success, error_msg = None\<rparr>"


definition ticket1 :: ticket where
  "ticket1 =
     \<lparr>tk_id = ''t1'', title = ''Login'', description = ''Cannot log in'', priority = ''high'',
      messages =
        [\<lparr>msg_id = ''m2'', content = ''Try again'', is_ai_generated = True, msg_created_at = 900\<rparr>,
         \<lparr>msg_id = ''m1'', content = ''Help'', is_ai_generated = False, msg_created_at = 800\<rparr>]\<rparr>"

definition world1 :: world where
  "world1 =
     \<lparr>ai_suggestions = [mk_suggestion ''s1'' Pending, mk_suggestion ''s2'' Accepted],
      tickets = [ticket1], ai_feedback_events = [], langfuse_traces = []\<rparr>"

definition env_ok :: env where
  "env_ok =
     \<lparr>now = 5000, feedbackStartTime = 5001, feedbackEndTime = 5009, fresh_trace_id = ''tr1'',
      suggestionError = None, feedbackError = None\<rparr>"

definition rejection_without_reason :: AIFeedback where
  "rejection_without_reason =
     \<lparr>suggestion_id = ''s1'', ticket_id = ''t1'', feedback_type = Rejection,
      feedback_reason = None, agent_response = None, metadata = None, fb_updated_at = 5000\<rparr>"

section \<open>The reconciler: properties\<close>

lemma ids_remove_id: "ids (remove_id i xs) = filter (\<lambda>j. j \<noteq> i) (ids xs)"
  by (induction xs) (simp_all add: ids_def remove_id_def)

lemma remove_id_absent: "i \<notin> set (ids xs) \<Longrightarrow> remove_id i xs = xs"
  by (induction xs) (auto simp: ids_def remove_id_def)

lemma update_map_absent:
  "i \<notin> set (ids xs) \<Longrightarrow>
   map (\<lambda>s. if sg_id (suggestion s) = i then s\<lparr>suggestion := u\<rparr> else s) xs = xs"
  by (induction xs) (auto simp: ids_def)

lemma ids_update_map:
  "ids (map (\<lambda>s. if sg_id (suggestion s) = sg_id u then s\<lparr>suggestion := u\<rparr> else s) xs) = ids xs"
  by (induction xs) (simp_all add: ids_def)

lemma list_ex_ids: "list_ex (\<lambda>s. sg_id (suggestion s) = i) xs \<longleftrightarrow> i \<in> set (ids xs)"
  by (induction xs) (auto simp: ids_def)

text \<open>
  The list holds each identifier at most once, and every event of the feed keeps it so.
\<close>

lemma on_change_distinct: "distinct (ids xs) \<Longrightarrow> distinct (ids (on_change ev xs))"
proof (cases ev)
  case (INSERT n)
  assume "distinct (ids xs)"
  then show ?thesis
    using INSERT by (simp add: list_ex_ids) (simp add: ids_def)
next
  case (UPDATE u)
  assume "distinct (ids xs)"
  then show ?thesis
    using UPDATE by (simp add: ids_remove_id ids_update_map)
next
  case (DELETE i)
  assume "distinct (ids xs)"
  then show ?thesis
    using DELETE by (simp add: ids_remove_id)
qed

text \<open>
  C8. An INSERT event for an identifier the list already holds leaves the list as it
  is (same length, same content, same order); for an identifier the list does not hold
  it appends the record, wrapped with the view status \<open>success\<close>, at the end.
\<close>

theorem insert_event_idempotent_or_append:
  "(sg_id n \<in> set (ids cur) \<longrightarrow> on_change (INSERT n) cur = cur) \<and>
   (sg_id n \<notin> set (ids cur) \<longrightarrow>
      on_change (INSERT n) cur = cur @ [\<lparr>suggestion = n, status = Success, error_msg = None\<rparr>])"
  by (simp add: list_ex_ids)

theorem insert_event_witness:
  "on_change (INSERT (mk_suggestion ''s1'' Pending)) [mk_state ''s1'' Pending, mk_state ''s2'' Pending]
     = [mk_state ''s1'' Pending, mk_state ''s2'' Pending] \<and>
   on_change (INSERT (mk_suggestion ''s3'' Pending)) [mk_state ''s1'' Pending, mk_state ''s2'' Pending]
     = [mk_state ''s1'' Pending, mk_state ''s2'' Pending, mk_state ''s3'' Pending]"
  using insert_event_idempotent_or_append
          [of "mk_suggestion ''s1'' Pending" "[mk_state ''s1'' Pending, mk_state ''s2'' Pending]"]
        insert_event_idempotent_or_append
          [of "mk_suggestion ''s3'' Pending" "[mk_state ''s1'' Pending, mk_state ''s2'' Pending]"]
  by (simp add: ids_def mk_state_def mk_suggestion_def)

text \<open>
  C9. After an UPDATE event whose record is accepted or rejected, the list holds no
  suggestion with the record's identifier, whatever it held before.
\<close>

theorem terminal_update_removes:
  "sg_status u = Accepted \<or> sg_status u = Rejected \<Longrightarrow>
   sg_id u \<notin> set (ids (on_change (UPDATE u) cur))"
  by (auto simp: ids_remove_id)

theorem terminal_update_removes_witness:
  "sg_id (mk_suggestion ''s1'' Accepted)
     \<notin> set (ids (on_change (UPDATE (mk_suggestion ''s1'' Accepted))
                   [mk_state ''s1'' Pending, mk_state ''s2'' Pending])) \<and>
   on_change (UPDATE (mk_suggestion ''s1'' Accepted))
     [mk_state ''s1'' Pending, mk_state ''s2'' Pending] = [mk_state ''s2'' Pending]"
  using terminal_update_removes
          [of "mk_suggestion ''s1'' Accepted" "[mk_state ''s1'' Pending, mk_state ''s2'' Pending]"]
  by (simp add: mk_state_def mk_suggestion_def remove_id_def)

text \<open>
  C1, as stated, fails: a non-terminal UPDATE for an identifier the list does not hold
  inserts nothing. Here the list holds \<open>s1\<close>, a terminal update removes it, and the
  pending update that follows leaves the list empty.
\<close>

theorem update_absent_not_inserted:
  "on_change (UPDATE (mk_suggestion ''s1'' Pending))
     (on_change (UPDATE (mk_suggestion ''s1'' Accepted)) [mk_state ''s1'' Pending]) = [] \<and>
   sg_id (mk_suggestion ''s1'' Pending)
     \<notin> set (ids (on_change (UPDATE (mk_suggestion ''s1'' Pending)) []))"
  by (simp add: mk_state_def mk_suggestion_def remove_id_def ids_def)

text \<open>
  C1, amended. A non-terminal UPDATE for an identifier the list does not hold leaves the
  list unchanged; for an identifier it holds, the entry keeps its place, its view status
  and error message, and its record is replaced by the incoming one. In both cases the
  identifiers held, and their order, stay the same.
\<close>

theorem nonterminal_update_replaces_in_place:
  assumes "sg_status u \<noteq> Accepted" and "sg_status u \<noteq> Rejected"
  shows "(sg_id u \<notin> set (ids cur) \<longrightarrow> on_change (UPDATE u) cur = cur) \<and>
         ids (on_change (UPDATE u) cur) = ids cur \<and>
         (\<forall>k < length cur. sg_id (suggestion (cur ! k)) = sg_id u \<longrightarrow>
             on_change (UPDATE u) cur ! k = (cur ! k)\<lparr>suggestion := u\<rparr>) \<and>
         (\<forall>k < length cur. sg_id (suggestion (cur ! k)) \<noteq> sg_id u \<longrightarrow>
             on_change (UPDATE u) cur ! k = cur ! k)"
  using assms by (simp add: update_map_absent ids_update_map)

theorem nonterminal_update_witness:
  "on_change (UPDATE (mk_suggestion ''s1'' Pending)) [] = [] \<and>
   on_change (UPDATE ((mk_suggestion ''s2'' Pending)\<lparr>suggested_response := ''sitting''\<rparr>))
     [mk_state ''s1'' Pending, mk_state ''s2'' Pending] ! 1
     = (mk_state ''s2'' Pending)
         \<lparr>suggestion := (mk_suggestion ''s2'' Pending)\<lparr>suggested_response := ''sitting''\<rparr>\<rparr>"
  using nonterminal_update_replaces_in_place [of "mk_suggestion ''s1'' Pending" "[]"]
        nonterminal_update_replaces_in_place
          [of "(mk_suggestion ''s2'' Pending)\<lparr>suggested_response := ''sitting''\<rparr>"
              "[mk_state ''s1'' Pending, mk_state ''s2'' Pending]"]
  by (simp add: mk_state_def mk_suggestion_def ids_def)

section \<open>The edit distance: properties\<close>

subsection \<open>The recurrence is a metric bounded below by every edit sequence\<close>

lemma lev_Nil2 [simp]: "levenshtein xs [] = length xs"
  by (cases xs) simp_all

lemma lev_refl [simp]: "levenshtein xs xs = 0"
  by (induction xs) simp_all

lemma lev_length:
  "length ys \<le> length xs + levenshtein xs ys \<and> length xs \<le> length ys + levenshtein xs ys"
  by (induction xs ys rule: levenshtein.induct) (auto simp: min_def)

lemma lev_drop:
  "levenshtein xs ys \<le> Suc (levenshtein xs (y # ys)) \<and>
   levenshtein xs ys \<le> Suc (levenshtein (x # xs) ys)"
proof (induction "length xs + length ys" arbitrary: xs ys x y rule: less_induct)
  case less
  show ?case
  proof (cases xs)
    case Nil
    then show ?thesis using lev_length[of ys "[x]"] by simp
  next
    case xs: (Cons a xs')
    show ?thesis
    proof (cases ys)
      case Nil
      then show ?thesis using xs lev_length[of "[y]" xs'] by (auto simp: min_def)
    next
      case ys: (Cons b ys')
      have 1: "levenshtein xs' ys \<le> Suc (levenshtein xs' (y # ys))"
        using less[of xs' ys] xs by simp
      have 4: "levenshtein xs ys' \<le> Suc (levenshtein (x # xs) ys')"
        using less[of xs ys'] ys by simp
      have 5: "levenshtein xs' ys' \<le> Suc (levenshtein xs' (b # ys'))"
        and 6: "levenshtein xs' ys' \<le> Suc (levenshtein (a # xs') ys')"
        using less[of xs' ys'] xs ys by simp_all
      have P: "levenshtein xs ys \<le> Suc (levenshtein xs' ys)"
        unfolding xs ys using 5 by (auto simp: min_def)
      have Q: "levenshtein xs ys \<le> Suc (levenshtein xs ys')"
        unfolding xs ys using 6 by (auto simp: min_def)
      have first: "levenshtein xs ys \<le> Suc (levenshtein xs (y # ys))"
      proof (cases "a = y")
        case True
        then show ?thesis using P by (simp add: xs)
      next
        case False
        then have "levenshtein xs (y # ys) =
            1 + min (levenshtein xs' (y # ys)) (min (levenshtein xs ys) (levenshtein xs' ys))"
          by (simp add: xs)
        then show ?thesis using P 1 by linarith
      qed
      have second: "levenshtein xs ys \<le> Suc (levenshtein (x # xs) ys)"
      proof (cases "x = b")
        case True
        then show ?thesis using Q by (simp add: ys)
      next
        case False
        then have "levenshtein (x # xs) ys =
            1 + min (levenshtein xs ys) (min (levenshtein (x # xs) ys') (levenshtein xs ys'))"
          by (simp add: ys)
        then show ?thesis using Q 4 by linarith
      qed
      show ?thesis using first second by simp
    qed
  qed
qed

lemma lev_add_right: "levenshtein xs (y # ys) \<le> Suc (levenshtein xs ys)"
proof (cases xs)
  case Nil
  then show ?thesis by simp
next
  case (Cons a xs')
  then show ?thesis using lev_drop[of xs' ys y a] by (auto simp: min_def)
qed

lemma lev_add_left: "levenshtein (x # xs) ys \<le> Suc (levenshtein xs ys)"
proof (cases ys)
  case Nil
  then show ?thesis by simp
next
  case (Cons b ys')
  then show ?thesis using lev_drop[of xs ys' b x] by (auto simp: min_def)
qed

lemma lev_diag: "levenshtein (x # xs) (y # ys) \<le> (if x = y then 0 else 1) + levenshtein xs ys"
  by (auto simp: min_def)

lemma lev_cases:
  "levenshtein (x # xs) (y # ys) = (if x = y then 0 else 1) + levenshtein xs ys \<or>
   levenshtein (x # xs) (y # ys) = 1 + levenshtein xs (y # ys) \<or>
   levenshtein (x # xs) (y # ys) = 1 + levenshtein (x # xs) ys"
  by (auto simp: min_def)

lemma lev_le_sum: "levenshtein xs ys \<le> length xs + length ys"
  by (induction xs ys rule: levenshtein.induct) (auto simp: min_def)

lemma lev_triangle: "levenshtein xs zs \<le> levenshtein xs ys + levenshtein ys zs"
proof (induction "length xs + length ys + length zs" arbitrary: xs ys zs rule: less_induct)
  case less
  show ?case
  proof (cases xs)
    case Nil
    then show ?thesis using lev_length[of zs ys] by simp
  next
    case xs: (Cons a xs')
    show ?thesis
    proof (cases zs)
      case Nil
      then show ?thesis using lev_length[of ys xs] by simp
    next
      case zs: (Cons c zs')
      show ?thesis
      proof (cases ys)
        case Nil
        then show ?thesis using lev_le_sum[of xs zs] by simp
      next
        case ys: (Cons b ys')
        have A: "levenshtein xs' zs \<le> levenshtein xs' ys + levenshtein ys zs"
          and B: "levenshtein xs zs' \<le> levenshtein xs ys + levenshtein ys zs'"
          and C: "levenshtein xs zs \<le> levenshtein xs ys' + levenshtein ys' zs"
          and D: "levenshtein xs zs' \<le> levenshtein xs ys' + levenshtein ys' zs'"
          and E: "levenshtein xs' zs \<le> levenshtein xs' ys' + levenshtein ys' zs"
          and F: "levenshtein xs' zs' \<le> levenshtein xs' ys' + levenshtein ys' zs'"
          using less[of xs' ys zs] less[of xs ys zs'] less[of xs ys' zs]
                less[of xs ys' zs'] less[of xs' ys' zs] less[of xs' ys' zs'] xs ys zs
          by auto
        have U1: "levenshtein xs zs \<le> Suc (levenshtein xs' zs)"
          and U2: "levenshtein xs zs \<le> Suc (levenshtein xs zs')"
          and U3: "levenshtein xs zs \<le> (if a = c then 0 else 1) + levenshtein xs' zs'"
          using lev_add_left[of a xs' zs] lev_add_right[of xs c zs'] lev_diag[of a xs' c zs'] xs zs
          by auto
        define p where "p = levenshtein xs' ys'"
        define q where "q = levenshtein ys' zs'"
        have xy: "levenshtein xs ys = (if a = b then 0 else 1) + p \<or>
                  levenshtein xs ys = 1 + levenshtein xs' ys \<or>
                  levenshtein xs ys = 1 + levenshtein xs ys'"
          using lev_cases[of a xs' b ys'] unfolding xs ys p_def by simp
        have yz: "levenshtein ys zs = (if b = c then 0 else 1) + q \<or>
                  levenshtein ys zs = 1 + levenshtein ys' zs \<or>
                  levenshtein ys zs = 1 + levenshtein ys zs'"
          using lev_cases[of b ys' c zs'] unfolding ys zs q_def by simp
        have F': "levenshtein xs' zs' \<le> p + q" using F by (simp add: p_def q_def)
        have E': "levenshtein xs' zs \<le> p + levenshtein ys' zs" using E by (simp add: p_def)
        have D': "levenshtein xs zs' \<le> levenshtein xs ys' + q" using D by (simp add: q_def)
        have U3': "a = c \<Longrightarrow> levenshtein xs zs \<le> levenshtein xs' zs'"
          and U3'': "levenshtein xs zs \<le> Suc (levenshtein xs' zs')"
          using U3 by (simp_all split: if_splits)
        from xy show ?thesis
        proof (elim disjE)
          assume 1: "levenshtein xs ys = 1 + levenshtein xs' ys"
          then show ?thesis using A U1 by linarith
        next
          assume 1: "levenshtein xs ys = 1 + levenshtein xs ys'"
          from yz show ?thesis
          proof (elim disjE)
            assume 2: "levenshtein ys zs = (if b = c then 0 else 1) + q"
            then have "q \<le> levenshtein ys zs" by simp
            then show ?thesis using 1 D' U2 by linarith
          next
            assume 2: "levenshtein ys zs = 1 + levenshtein ys' zs"
            then show ?thesis using 1 C by linarith
          next
            assume 2: "levenshtein ys zs = 1 + levenshtein ys zs'"
            then show ?thesis using B U2 by linarith
          qed
        next
          assume 1: "levenshtein xs ys = (if a = b then 0 else 1) + p"
          from yz show ?thesis
          proof (elim disjE)
            assume 2: "levenshtein ys zs = (if b = c then 0 else 1) + q"
            show ?thesis
            proof (cases "a = c")
              case True
              have "p \<le> levenshtein xs ys" "q \<le> levenshtein ys zs" using 1 2 by simp_all
              then show ?thesis using U3'[OF True] F' by linarith
            next
              case False
              then have "a \<noteq> b \<or> b \<noteq> c" by auto
              then have "Suc (p + q) \<le> levenshtein xs ys + levenshtein ys zs"
                using 1 2 by (auto split: if_splits)
              then show ?thesis using U3'' F' by linarith
            qed
          next
            assume 2: "levenshtein ys zs = 1 + levenshtein ys' zs"
            have "p \<le> levenshtein xs ys" using 1 by simp
            then show ?thesis using 2 E' U1 by linarith
          next
            assume 2: "levenshtein ys zs = 1 + levenshtein ys zs'"
            then show ?thesis using B U2 by linarith
          qed
        qed
      qed
    qed
  qed
qed

lemma lev_prefix: "levenshtein (as @ xs) (as @ ys) = levenshtein xs ys"
  by (induction as) simp_all

lemma edit_step_lev: "edit_step ys zs \<Longrightarrow> levenshtein ys zs \<le> 1"
proof (induction rule: edit_step.induct)
  case (insert as bs c)
  then show ?case using lev_add_right[of bs c bs] by (simp add: lev_prefix)
next
  case (delete as c bs)
  then show ?case using lev_add_left[of c bs bs] by (simp add: lev_prefix)
next
  case (substitute as c bs d)
  then show ?case by (simp add: lev_prefix)
qed

lemma edits_lower: "edits n xs ys \<Longrightarrow> levenshtein xs ys \<le> n"
proof (induction rule: edits.induct)
  case (none xs)
  then show ?case by simp
next
  case (more n xs ys zs)
  then show ?case
    using lev_triangle[of xs zs ys] edit_step_lev[of ys zs] by simp
qed

lemma edit_step_Cons: "edit_step xs ys \<Longrightarrow> edit_step (a # xs) (a # ys)"
proof (induction rule: edit_step.induct)
  case (insert as bs c)
  then show ?case using edit_step.insert[of "a # as" bs c] by simp
next
  case (delete as c bs)
  then show ?case using edit_step.delete[of "a # as" c bs] by simp
next
  case (substitute as c bs d)
  then show ?case using edit_step.substitute[of "a # as" c bs d] by simp
qed

lemma edits_Cons: "edits n xs ys \<Longrightarrow> edits n (a # xs) (a # ys)"
  by (induction rule: edits.induct) (auto intro: edits.intros edit_step_Cons)

inductive_cases edits_zeroE: "edits 0 xs ys"

inductive_cases edits_SucE: "edits (Suc n) xs ys"

lemma edits_first: "edit_step xs ys \<Longrightarrow> edits n ys zs \<Longrightarrow> edits (Suc n) xs zs"
proof (induction n arbitrary: zs)
  case 0
  then have "zs = ys" by (auto elim: edits_zeroE)
  then show ?case using edits.more[OF edits.none[of xs] 0(1)] by simp
next
  case (Suc n)
  from Suc.prems(2) obtain ws where ws: "edits n ys ws" "edit_step ws zs"
    by (auto elim: edits_SucE)
  show ?case using edits.more[OF Suc.IH[OF Suc.prems(1) ws(1)] ws(2)] .
qed

lemma edits_insert_all: "edits (length ys) [] ys"
proof (induction ys)
  case Nil
  then show ?case by (simp add: edits.none)
next
  case (Cons y ys)
  have "edit_step [] [y]" using edit_step.insert[of "[]" "[]" y] by simp
  then show ?case using edits_first[OF edit_step_Cons[of "[]" "[y]" y]] edits_first[of "[]" "[y]" "length ys" "y # ys"] edits_Cons[OF Cons, of y] by simp
qed

lemma edits_delete_all: "edits (length xs) xs []"
proof (induction xs)
  case Nil
  then show ?case by (simp add: edits.none)
next
  case (Cons x xs)
  have "edit_step (x # xs) xs" using edit_step.delete[of "[]" x xs] by simp
  then show ?case using edits_first[of "x # xs" xs "length xs" "[]"] Cons by simp
qed

lemma edits_upper: "edits (levenshtein xs ys) xs ys"
proof (induction xs ys rule: levenshtein.induct)
  case (1 ys)
  then show ?case by (simp add: edits_insert_all)
next
  case (2 v va)
  then show ?case using edits_delete_all[of "v # va"] by simp
next
  case (3 x xs y ys)
  show ?case
  proof (cases "x = y")
    case True
    then show ?thesis using 3 by (simp add: edits_Cons)
  next
    case False
    have del: "edit_step (x # xs) xs" using edit_step.delete[of "[]" x xs] by simp
    have ins: "edit_step ys (y # ys)" using edit_step.insert[of "[]" ys y] by simp
    have sub: "edit_step (x # ys) (y # ys)" using edit_step.substitute[of "[]" x ys y] by simp
    have a: "edits (Suc (levenshtein xs (y # ys))) (x # xs) (y # ys)"
      using edits_first[OF del 3(2)[OF False]] .
    have b: "edits (Suc (levenshtein (x # xs) ys)) (x # xs) (y # ys)"
      using edits.more[OF 3(3)[OF False] ins] .
    have c: "edits (Suc (levenshtein xs ys)) (x # xs) (y # ys)"
      using edits.more[OF edits_Cons[OF 3(4)[OF False], of x] sub] .
    show ?thesis using False a b c by (simp add: min_def)
  qed
qed

subsection \<open>The table holds the distances of the prefixes\<close>

lemma prefix_distance_0_left: "j \<le> length str2 \<Longrightarrow> prefix_distance str1 str2 0 j = j"
  by (simp add: prefix_distance_def)

lemma prefix_distance_0_right: "i \<le> length str1 \<Longrightarrow> prefix_distance str1 str2 i 0 = i"
  by (simp add: prefix_distance_def)

lemma prefix_distance_Suc:
  assumes "i < length str1" and "j < length str2"
  shows "prefix_distance str1 str2 (Suc i) (Suc j) =
     (if str1 ! i = str2 ! j then prefix_distance str1 str2 i j
      else 1 + min (prefix_distance str1 str2 i (Suc j))
                   (min (prefix_distance str1 str2 (Suc i) j) (prefix_distance str1 str2 i j)))"
  using assms by (simp add: prefix_distance_def take_Suc_conv_app_nth)

lemma dp_cell_correct:
  assumes inv: "dp_inv str1 str2 dp i j" and i: "i \<le> length str1" and j: "j \<le> length str2"
  shows "dp_cell str1 str2 dp i j = prefix_distance str1 str2 i j"
proof (cases "i = 0 \<or> j = 0")
  case True
  then show ?thesis
    using i j by (auto simp: dp_cell_def prefix_distance_0_left prefix_distance_0_right)
next
  case False
  then obtain i0 j0 where ij: "i = Suc i0" "j = Suc j0"
    by (metis not0_implies_Suc)
  have cells: "\<And>i' j'. i' \<le> length str1 \<Longrightarrow> j' \<le> length str2 \<Longrightarrow> i' < i \<or> (i' = i \<and> j' < j) \<Longrightarrow>
      dp ! i' ! j' = prefix_distance str1 str2 i' j'"
    using inv unfolding dp_inv_def by blast
  have a: "dp ! i0 ! j0 = prefix_distance str1 str2 i0 j0"
    using cells[of i0 j0] i j ij by simp
  have b: "dp ! i0 ! j = prefix_distance str1 str2 i0 j"
    using cells[of i0 j] i j ij by simp
  have c: "dp ! i ! j0 = prefix_distance str1 str2 i j0"
    using cells[of i j0] i j ij by simp
  have "i0 < length str1" "j0 < length str2" using i j ij by simp_all
  from prefix_distance_Suc[OF this] show ?thesis
    using a b c ij by (simp add: dp_cell_def)
qed

lemma dp_set_nth:
  assumes "i < length dp" and "j < length (dp ! i)"
  shows "dp_set dp i j v ! i' ! j' = (if i' = i \<and> j' = j then v else dp ! i' ! j')"
  using assms by (cases "i' = i") (simp_all add: dp_set_def nth_list_update)

lemma dp_set_length: "length (dp_set dp i j v) = length dp"
  by (simp add: dp_set_def)

lemma dp_set_row_length: "r < length dp \<Longrightarrow> length (dp_set dp i j v ! r) = length (dp ! r)"
  by (cases "r = i") (simp_all add: dp_set_def)

lemma dp_init_length: "length (dp_init m n) = m + 1"
  by (simp add: dp_init_def)

lemma dp_init_row_length: "r < m + 1 \<Longrightarrow> length (dp_init m n ! r) = n + 1"
  by (metis dp_init_def length_replicate nth_replicate)

lemma dp_inv_step:
  assumes inv: "dp_inv str1 str2 dp i j" and i: "i \<le> length str1" and j: "j \<le> length str2"
  shows "dp_inv str1 str2 (dp_set dp i j (dp_cell str1 str2 dp i j)) i (Suc j)"
proof -
  have len: "length dp = length str1 + 1"
    and rows: "\<And>r. r < length dp \<Longrightarrow> length (dp ! r) = length str2 + 1"
    and cells: "\<And>i' j'. i' \<le> length str1 \<Longrightarrow> j' \<le> length str2 \<Longrightarrow> i' < i \<or> (i' = i \<and> j' < j) \<Longrightarrow>
      dp ! i' ! j' = prefix_distance str1 str2 i' j'"
    using inv unfolding dp_inv_def by blast+
  have il: "i < length dp" using i len by simp
  have jl: "j < length (dp ! i)" using rows[OF il] j by simp
  let ?dp = "dp_set dp i j (dp_cell str1 str2 dp i j)"
  have "?dp ! i' ! j' = prefix_distance str1 str2 i' j'"
    if "i' \<le> length str1" "j' \<le> length str2" "i' < i \<or> (i' = i \<and> j' < Suc j)" for i' j'
  proof (cases "i' = i \<and> j' = j")
    case True
    then show ?thesis
      using dp_cell_correct[OF inv i j] by (simp add: dp_set_nth[OF il jl])
  next
    case False
    then have "i' < i \<or> (i' = i \<and> j' < j)" using that(3) by auto
    from cells[OF that(1,2) this] show ?thesis
      using False by (auto simp: dp_set_nth[OF il jl])
  qed
  then show ?thesis
    unfolding dp_inv_def using len rows by (simp add: dp_set_length dp_set_row_length)
qed

lemma inner_loop_inv:
  assumes "dp_inv str1 str2 dp i 0" and "i \<le> length str1" and "k \<le> length str2 + 1"
  shows "dp_inv str1 str2
           (fold (\<lambda>j dp. dp_set dp i j (dp_cell str1 str2 dp i j)) [0..<k] dp) i k"
  using assms(3)
proof (induction k)
  case 0
  then show ?case using assms(1) by simp
next
  case (Suc k)
  then have "dp_inv str1 str2
           (fold (\<lambda>j dp. dp_set dp i j (dp_cell str1 str2 dp i j)) [0..<k] dp) i k"
    by simp
  from dp_inv_step[OF this assms(2)] Suc.prems show ?case by simp
qed

lemma dp_inv_next_row:
  assumes "dp_inv str1 str2 dp i (length str2 + 1)"
  shows "dp_inv str1 str2 dp (Suc i) 0"
proof -
  have cells: "\<And>i' j'. i' \<le> length str1 \<Longrightarrow> j' \<le> length str2 \<Longrightarrow>
      i' < i \<or> (i' = i \<and> j' < length str2 + 1) \<Longrightarrow>
      dp ! i' ! j' = prefix_distance str1 str2 i' j'"
    using assms unfolding dp_inv_def by blast
  have "dp ! i' ! j' = prefix_distance str1 str2 i' j'"
    if "i' \<le> length str1" "j' \<le> length str2" "i' < Suc i" for i' j'
    using cells[OF that(1,2)] that(2,3) by (cases "i' = i") simp_all
  then show ?thesis
    using assms unfolding dp_inv_def by simp
qed

lemma outer_loop_inv:
  assumes "k \<le> length str1 + 1"
  shows "dp_inv str1 str2
           (fold (\<lambda>i dp. inner_loop str1 str2 (length str2) i dp) [0..<k]
              (dp_init (length str1) (length str2))) k 0"
  using assms
proof (induction k)
  case 0
  then show ?case by (simp add: dp_inv_def dp_init_length dp_init_row_length)
next
  case (Suc k)
  then have "dp_inv str1 str2
           (fold (\<lambda>i dp. inner_loop str1 str2 (length str2) i dp) [0..<k]
              (dp_init (length str1) (length str2))) k 0"
    by simp
  from inner_loop_inv[OF this, of "length str2 + 1"] Suc.prems show ?case
    by (simp add: inner_loop_def dp_inv_next_row)
qed

lemma calculateEditDistance_levenshtein:
  "calculateEditDistance str1 str2 = levenshtein (rev str1) (rev str2)"
proof -
  have "dp_inv str1 str2 (outer_loop str1 str2 (length str1) (length str2)
           (dp_init (length str1) (length str2))) (length str1 + 1) 0"
    using outer_loop_inv[of "length str1 + 1" str1 str2] by (simp add: outer_loop_def)
  then have "outer_loop str1 str2 (length str1) (length str2)
           (dp_init (length str1) (length str2)) ! length str1 ! length str2
         = prefix_distance str1 str2 (length str1) (length str2)"
    unfolding dp_inv_def by simp
  then show ?thesis
    by (simp add: calculateEditDistance_def prefix_distance_def Let_def)
qed

lemma edit_step_rev: "edit_step xs ys \<Longrightarrow> edit_step (rev xs) (rev ys)"
proof (induction rule: edit_step.induct)
  case (insert as bs c)
  then show ?case using edit_step.insert[of "rev bs" "rev as" c] by simp
next
  case (delete as c bs)
  then show ?case using edit_step.delete[of "rev bs" c "rev as"] by simp
next
  case (substitute as c bs d)
  then show ?case using edit_step.substitute[of "rev bs" c "rev as" d] by simp
qed

lemma edits_rev: "edits n xs ys \<Longrightarrow> edits n (rev xs) (rev ys)"
proof (induction rule: edits.induct)
  case (none xs)
  then show ?case by (rule edits.none)
next
  case (more n xs ys zs)
  then show ?case using edits.more[OF more.IH edit_step_rev[OF more.hyps(2)]] by simp
qed

lemma levenshtein_rev: "levenshtein (rev xs) (rev ys) = levenshtein xs ys"
proof (rule antisym)
  show "levenshtein (rev xs) (rev ys) \<le> levenshtein xs ys"
    using edits_lower[OF edits_rev[OF edits_upper[of xs ys]]] .
  show "levenshtein xs ys \<le> levenshtein (rev xs) (rev ys)"
    using edits_lower[OF edits_rev[OF edits_upper[of "rev xs" "rev ys"]]] by simp
qed

text \<open>
  C7. \<open>calculateEditDistance\<close> is the Levenshtein distance: some sequence of that many
  single-character insertions, deletions and substitutions transforms the first string
  into the second, and no sequence of fewer does; it agrees with the standard recurrence.
  In particular the distance of two empty strings is 0, that of the empty string and
  \<open>s\<close> is the length of \<open>s\<close>, that of "kitten" and "sitting" is 3 and that of "abc"
  and "abc" is 0.
\<close>

theorem calculateEditDistance_levenshtein_distance:
  "edits (calculateEditDistance s t) s t \<and>
   (\<forall>n. edits n s t \<longrightarrow> calculateEditDistance s t \<le> n) \<and>
   calculateEditDistance s t = levenshtein s t \<and>
   calculateEditDistance ([] :: 'a list) [] = 0 \<and>
   calculateEditDistance [] s = length s \<and>
   calculateEditDistance ''kitten'' ''sitting'' = 3 \<and>
   calculateEditDistance ''abc'' ''abc'' = 0"
proof -
  have eq: "\<And>(a :: 'b list) b. calculateEditDistance a b = levenshtein a b"
    by (simp add: calculateEditDistance_levenshtein levenshtein_rev)
  have reach: "edits (calculateEditDistance s t) s t"
    using edits_upper[of s t] by (simp add: eq)
  have least: "\<forall>n. edits n s t \<longrightarrow> calculateEditDistance s t \<le> n"
    using edits_lower[of _ s t] by (simp add: eq)
  have e1: "calculateEditDistance ([] :: 'a list) [] = 0"
    by (simp add: calculateEditDistance_levenshtein)
  have e2: "calculateEditDistance [] s = length s"
    by (simp add: calculateEditDistance_levenshtein)
  have e3: "calculateEditDistance ''kitten'' ''sitting'' = 3"
    by (simp add: calculateEditDistance_levenshtein)
  have e4: "calculateEditDistance ''abc'' ''abc'' = 0"
    by (simp add: calculateEditDistance_levenshtein)
  show ?thesis
    using reach least eq[of s t] e1 e2 e3 e4 by blast
qed

theorem calculateEditDistance_witness:
  "edits (calculateEditDistance ''flaw'' ''lawn'') ''flaw'' ''lawn'' \<and>
   calculateEditDistance ''flaw'' ''lawn'' \<le> 2 \<and>
   calculateEditDistance [] ''abc'' = 3"
proof -
  have "edit_step ''flaw'' ''law''"
    using edit_step.delete[of "[]" "CHR ''f''" "''law''"] by simp
  then have one: "edits (Suc 0) ''flaw'' ''law''"
    using edits.more[OF edits.none[of "''flaw''"]] by simp
  have "edit_step ''law'' ''lawn''"
    using edit_step.insert[of "''law''" "[]" "CHR ''n''"] by simp
  then have two: "edits 2 ''flaw'' ''lawn''"
    using edits.more[OF one] by (simp add: numeral_2_eq_2)
  note flaw = calculateEditDistance_levenshtein_distance[of "''flaw''" "''lawn''"]
  note abc = calculateEditDistance_levenshtein_distance[of "''abc''" "''abc''"]
  have a: "edits (calculateEditDistance ''flaw'' ''lawn'') ''flaw'' ''lawn''"
    using flaw by (rule conjunct1)
  have b: "calculateEditDistance ''flaw'' ''lawn'' \<le> 2"
    using flaw two by blast
  have c: "calculateEditDistance [] ''abc'' = length ''abc''"
    using abc by blast
  show ?thesis
    using a b c by simp
qed

section \<open>Recording feedback: properties\<close>

lemma truthy_Some: "truthy user_id \<Longrightarrow> \<exists>agent. user_id = Some agent \<and> agent \<noteq> []"
  by (cases user_id) (simp_all add: truthy_def)

lemma storeFeedback_step_A_fails:
  assumes "truthy user_id"
    and "select_suggestion w (suggestion_id fb) = Some sg"
    and "select_ticket w (ticket_id fb) = Some tk"
    and "suggestionError e = Some err"
  shows "storeFeedback user_id e w fb =
           (w\<lparr>langfuse_traces := langfuse_traces w @
               [(feedbackTrace (the user_id) e sg tk fb)
                  \<lparr>spans := [error_span ''update-suggestion-status'' err]\<rparr>]\<rparr>,
            Inl (PostgrestError err))"
  using assms truthy_Some[OF assms(1)] by (auto simp: storeFeedback_def)

lemma storeFeedback_step_B_fails:
  assumes "truthy user_id"
    and "select_suggestion w (suggestion_id fb) = Some sg"
    and "select_ticket w (ticket_id fb) = Some tk"
    and "suggestionError e = None"
    and "feedbackError e = Some err"
  shows "storeFeedback user_id e w fb =
           (w\<lparr>ai_suggestions :=
                 update_status (suggestion_id fb) (new_status (feedback_type fb)) (now e)
                   (ai_suggestions w),
               langfuse_traces := langfuse_traces w @
               [(feedbackTrace (the user_id) e sg tk fb)
                  \<lparr>spans := [success_span ''update-suggestion-status'',
                              error_span ''store-feedback-event'' err]\<rparr>]\<rparr>,
            Inl (PostgrestError err))"
  using assms truthy_Some[OF assms(1)] by (auto simp: storeFeedback_def)

lemma storeFeedback_succeeds:
  assumes "truthy user_id"
    and "select_suggestion w (suggestion_id fb) = Some sg"
    and "select_ticket w (ticket_id fb) = Some tk"
    and "suggestionError e = None"
    and "feedbackError e = None"
  shows "storeFeedback user_id e w fb =
           (w\<lparr>ai_suggestions :=
                 update_status (suggestion_id fb) (new_status (feedback_type fb)) (now e)
                   (ai_suggestions w),
               ai_feedback_events := ai_feedback_events w @ [feedback_row (the user_id) e fb],
               langfuse_traces := langfuse_traces w @
               [(feedbackTrace (the user_id) e sg tk fb)
                  \<lparr>spans := [success_span ''update-suggestion-status'',
                              success_span ''store-feedback-event''],
                    trace_out := Some (trace_result e sg fb)\<rparr>]\<rparr>,
            Inr ())"
  using assms truthy_Some[OF assms(1)] by (auto simp: storeFeedback_def)

text \<open>The outcome is \<open>Inr ()\<close> only on the path on which both writes are done.\<close>

lemma storeFeedback_Inr_iff:
  "snd (storeFeedback user_id e w fb) = Inr () \<longleftrightarrow>
     truthy user_id \<and> select_suggestion w (suggestion_id fb) \<noteq> None \<and>
     select_ticket w (ticket_id fb) \<noteq> None \<and> suggestionError e = None \<and> feedbackError e = None"
  by (auto simp: storeFeedback_def truthy_def Let_def split: option.splits)

lemma single_row_map: "single_row (map f xs) = map_option f (single_row xs)"
  by (cases xs rule: remdups_adj.cases) (simp_all add: single_row_def)

lemma filter_update_status:
  "filter (\<lambda>s. sg_id s = i) (update_status j st t rows) =
   update_status j st t (filter (\<lambda>s. sg_id s = i) rows)"
  by (induction rows) (simp_all add: update_status_def)

lemma select_after_update:
  "select_suggestion (w\<lparr>ai_suggestions := update_status i st t (ai_suggestions w)\<rparr>) i =
   map_option (\<lambda>s. s\<lparr>sg_status := st, updated_at := t\<rparr>) (select_suggestion w i)"
proof -
  have "update_status i st t (filter (\<lambda>s. sg_id s = i) rows) =
        map (\<lambda>s. s\<lparr>sg_status := st, updated_at := t\<rparr>) (filter (\<lambda>s. sg_id s = i) rows)" for rows
    by (induction rows) (simp_all add: update_status_def)
  then show ?thesis
    by (simp add: select_suggestion_def filter_update_status single_row_map)
qed

lemma update_status_length: "length (update_status i st t rows) = length rows"
  by (simp add: update_status_def)

lemma update_status_nth:
  "k < length rows \<Longrightarrow>
   update_status i st t rows ! k =
     (if sg_id (rows ! k) = i then (rows ! k)\<lparr>sg_status := st, updated_at := t\<rparr> else rows ! k)"
  by (simp add: update_status_def)

lemma update_status_target:
  assumes "s \<in> set (update_status i st t rows)" and "sg_id s = i"
  shows "sg_status s = st"
proof -
  from assms(1) obtain r where r: "r \<in> set rows"
    and s: "s = (if sg_id r = i then r\<lparr>sg_status := st, updated_at := t\<rparr> else r)"
    unfolding update_status_def set_map by (rule imageE)
  show ?thesis
  proof (cases "sg_id r = i")
    case True
    then show ?thesis using s by simp
  next
    case False
    then show ?thesis using s assms(2) by simp
  qed
qed

text \<open>The suggestions table after any run: untouched, or with Step A applied.\<close>

lemma storeFeedback_suggestions:
  "ai_suggestions (fst (storeFeedback user_id e w fb)) = ai_suggestions w \<or>
   ai_suggestions (fst (storeFeedback user_id e w fb)) =
     update_status (suggestion_id fb) (new_status (feedback_type fb)) (now e) (ai_suggestions w)"
  by (auto simp: storeFeedback_def Let_def split: option.splits)

lemma world1_s1: "select_suggestion world1 ''s1'' = Some (mk_suggestion ''s1'' Pending)"
  by (simp add: select_suggestion_def world1_def mk_suggestion_def single_row_def)

lemma world1_s2: "select_suggestion world1 ''s2'' = Some (mk_suggestion ''s2'' Accepted)"
  by (simp add: select_suggestion_def world1_def mk_suggestion_def single_row_def)

lemma world1_t1: "select_ticket world1 ''t1'' = Some ticket1"
  by (simp add: select_ticket_def world1_def ticket1_def single_row_def)

lemma truthy_agent1: "truthy (Some ''agent1'')"
  by (simp add: truthy_def)

text \<open>
  C6. When the status update (Step A) is reached and refused, \<open>storeFeedback\<close> throws the
  error of that call; no row is added to \<open>ai_feedback_events\<close>, and the suggestions are
  as they were.
\<close>
theorem status_update_failure_aborts:
  assumes "truthy user_id"
    and "select_suggestion w (suggestion_id fb) = Some sg"
    and "select_ticket w (ticket_id fb) = Some tk"
    and "suggestionError e = Some err"
  shows "snd (storeFeedback user_id e w fb) = Inl (PostgrestError err) \<and>
         ai_feedback_events (fst (storeFeedback user_id e w fb)) = ai_feedback_events w \<and>
         ai_suggestions (fst (storeFeedback user_id e w fb)) = ai_suggestions w"
  by (simp add: storeFeedback_step_A_fails[OF assms])

theorem status_update_failure_witness:
  "snd (storeFeedback (Some ''agent1'') (env_ok\<lparr>suggestionError := Some ''refused''\<rparr>) world1
          rejection_without_reason) = Inl (PostgrestError ''refused'') \<and>
   ai_feedback_events (fst (storeFeedback (Some ''agent1'')
          (env_ok\<lparr>suggestionError := Some ''refused''\<rparr>) world1 rejection_without_reason)) = []"
  using status_update_failure_aborts
          [of "Some ''agent1''" world1 rejection_without_reason "mk_suggestion ''s1'' Pending"
              ticket1 "env_ok\<lparr>suggestionError := Some ''refused''\<rparr>" "''refused''"]
        truthy_agent1 world1_s1 world1_t1
  by (simp add: rejection_without_reason_def world1_def)

text \<open>
  C5. When the status update (Step A) is done and the insert of the feedback event
  (Step B) is refused, \<open>storeFeedback\<close> throws the error of the insert, and the status
  written by Step A stays: the suggestion is accepted (approval) or rejected (any other
  type) in the remote table, and no feedback event is added.
\<close>
theorem feedback_insert_failure_keeps_status:
  assumes "truthy user_id"
    and "select_suggestion w (suggestion_id fb) = Some sg"
    and "select_ticket w (ticket_id fb) = Some tk"
    and "suggestionError e = None"
    and "feedbackError e = Some err"
  shows "snd (storeFeedback user_id e w fb) = Inl (PostgrestError err) \<and>
         ai_suggestions (fst (storeFeedback user_id e w fb)) =
           update_status (suggestion_id fb) (new_status (feedback_type fb)) (now e)
             (ai_suggestions w) \<and>
         select_suggestion (fst (storeFeedback user_id e w fb)) (suggestion_id fb) =
           Some (sg\<lparr>sg_status := new_status (feedback_type fb), updated_at := now e\<rparr>) \<and>
         new_status (feedback_type fb) = (if feedback_type fb = Approval then Accepted else Rejected) \<and>
         ai_feedback_events (fst (storeFeedback user_id e w fb)) = ai_feedback_events w"
proof -
  have "select_suggestion (fst (storeFeedback user_id e w fb)) (suggestion_id fb) =
        select_suggestion
          (w\<lparr>ai_suggestions := update_status (suggestion_id fb) (new_status (feedback_type fb))
                 (now e) (ai_suggestions w)\<rparr>) (suggestion_id fb)"
    by (simp add: storeFeedback_step_B_fails[OF assms] select_suggestion_def)
  then show ?thesis
    using assms(2)
    by (simp add: storeFeedback_step_B_fails[OF assms] select_after_update new_status_def)
qed

theorem feedback_insert_failure_witness:
  "snd (storeFeedback (Some ''agent1'') (env_ok\<lparr>feedbackError := Some ''refused''\<rparr>) world1
          rejection_without_reason) = Inl (PostgrestError ''refused'') \<and>
   select_suggestion (fst (storeFeedback (Some ''agent1'')
          (env_ok\<lparr>feedbackError := Some ''refused''\<rparr>) world1 rejection_without_reason)) ''s1''
     = Some ((mk_suggestion ''s1'' Pending)\<lparr>sg_status := Rejected, updated_at := 5000\<rparr>) \<and>
   ai_feedback_events (fst (storeFeedback (Some ''agent1'')
          (env_ok\<lparr>feedbackError := Some ''refused''\<rparr>) world1 rejection_without_reason)) = []"
  using feedback_insert_failure_keeps_status
          [of "Some ''agent1''" world1 rejection_without_reason "mk_suggestion ''s1'' Pending"
              ticket1 "env_ok\<lparr>feedbackError := Some ''refused''\<rparr>" "''refused''"]
        truthy_agent1 world1_s1 world1_t1
  by (simp add: rejection_without_reason_def world1_def env_ok_def)





text \<open>
  C4, as stated, fails: Step A does not read the status it overwrites. A rejection
  recorded for a suggestion that is already accepted turns it into a rejected one.
\<close>

theorem accepted_becomes_rejected:
  "select_suggestion world1 ''s2'' = Some (mk_suggestion ''s2'' Accepted) \<and>
   snd (storeFeedback (Some ''agent1'') env_ok world1
          (rejection_without_reason\<lparr>suggestion_id := ''s2''\<rparr>)) = Inr () \<and>
   select_suggestion
       (fst (storeFeedback (Some ''agent1'') env_ok world1
          (rejection_without_reason\<lparr>suggestion_id := ''s2''\<rparr>))) ''s2''
     = Some ((mk_suggestion ''s2'' Accepted)\<lparr>sg_status := Rejected, updated_at := 5000\<rparr>)"
  using storeFeedback_succeeds[OF truthy_agent1, where w = world1
          and fb = "rejection_without_reason\<lparr>suggestion_id := ''s2''\<rparr>"
          and sg = "mk_suggestion ''s2'' Accepted" and tk = ticket1 and e = env_ok] world1_s2 world1_t1
        select_after_update[where w = world1 and i = "''s2''" and st = Rejected and t = 5000]
  by (simp add: rejection_without_reason_def env_ok_def new_status_def
        select_suggestion_def world1_def)

text \<open>
  C4, amended. \<open>storeFeedback\<close> writes the status from the feedback type alone: the
  status it writes is accepted (approval) or rejected (any other type), never pending; a
  run changes no identifier, and leaves every suggestion either with the status it had or
  with that new status, so no suggestion enters pending; and when Step A is reached and
  done, every suggestion with the submitted identifier has the new status afterwards,
  whatever its status was before (accepted to rejected and rejected to accepted
  included).
\<close>

theorem status_written_from_feedback_type:
  "new_status (feedback_type fb) \<noteq> Pending \<and>
   length (ai_suggestions (fst (storeFeedback user_id e w fb))) = length (ai_suggestions w) \<and>
   (\<forall>k < length (ai_suggestions w).
      sg_id (ai_suggestions (fst (storeFeedback user_id e w fb)) ! k) = sg_id (ai_suggestions w ! k) \<and>
      (sg_status (ai_suggestions (fst (storeFeedback user_id e w fb)) ! k)
         = sg_status (ai_suggestions w ! k) \<or>
       sg_status (ai_suggestions (fst (storeFeedback user_id e w fb)) ! k)
         = new_status (feedback_type fb))) \<and>
   (truthy user_id \<and> select_suggestion w (suggestion_id fb) \<noteq> None \<and>
    select_ticket w (ticket_id fb) \<noteq> None \<and> suggestionError e = None \<longrightarrow>
      (\<forall>s \<in> set (ai_suggestions (fst (storeFeedback user_id e w fb))).
         sg_id s = suggestion_id fb \<longrightarrow> sg_status s = new_status (feedback_type fb)))"
proof -
  let ?old = "ai_suggestions w"
  let ?new = "ai_suggestions (fst (storeFeedback user_id e w fb))"
  let ?upd = "update_status (suggestion_id fb) (new_status (feedback_type fb)) (now e) ?old"
  have a: "new_status (feedback_type fb) \<noteq> Pending"
    by (simp add: new_status_def)
  have cases: "?new = ?old \<or> ?new = ?upd"
    by (rule storeFeedback_suggestions)
  have b: "length ?new = length ?old"
    using cases by (auto simp: update_status_length)
  have c: "sg_id (?new ! k) = sg_id (?old ! k) \<and>
           (sg_status (?new ! k) = sg_status (?old ! k) \<or>
            sg_status (?new ! k) = new_status (feedback_type fb))" if "k < length ?old" for k
  proof -
    have "sg_id (?upd ! k) = sg_id (?old ! k) \<and>
           (sg_status (?upd ! k) = sg_status (?old ! k) \<or>
            sg_status (?upd ! k) = new_status (feedback_type fb))"
      by (simp add: update_status_nth[OF that])
    then show ?thesis using cases by auto
  qed
  have d: "\<forall>s \<in> set ?new. sg_id s = suggestion_id fb \<longrightarrow> sg_status s = new_status (feedback_type fb)"
    if "truthy user_id" "select_suggestion w (suggestion_id fb) \<noteq> None"
       "select_ticket w (ticket_id fb) \<noteq> None" "suggestionError e = None"
  proof -
    from that obtain sg tk where sg: "select_suggestion w (suggestion_id fb) = Some sg"
      and tk: "select_ticket w (ticket_id fb) = Some tk" by auto
    have "?new = ?upd"
    proof (cases "feedbackError e")
      case None
      then show ?thesis by (simp add: storeFeedback_succeeds[OF that(1) sg tk that(4)])
    next
      case (Some err)
      then show ?thesis by (simp add: storeFeedback_step_B_fails[OF that(1) sg tk that(4)])
    qed
    then show ?thesis using update_status_target by metis
  qed
  show ?thesis using a b c d by blast
qed

theorem status_written_witness:
  "new_status Rejection = Rejected \<and>
   sg_status (ai_suggestions world1 ! 1) = Accepted \<and>
   sg_status (ai_suggestions (fst (storeFeedback (Some ''agent1'') env_ok world1
          (rejection_without_reason\<lparr>suggestion_id := ''s2''\<rparr>))) ! 1) = Rejected"
proof -
  note T = status_written_from_feedback_type
             [where fb = "rejection_without_reason\<lparr>suggestion_id := ''s2''\<rparr>"
                and user_id = "Some ''agent1''" and e = env_ok and w = world1]
  let ?new = "ai_suggestions (fst (storeFeedback (Some ''agent1'') env_ok world1
          (rejection_without_reason\<lparr>suggestion_id := ''s2''\<rparr>)))"
  have len: "length ?new = 2" using T by (simp add: world1_def)
  then have mem: "?new ! 1 \<in> set ?new" by simp
  have id: "sg_id (?new ! 1) = ''s2''"
    using T by (simp add: world1_def mk_suggestion_def)
  have pre: "truthy (Some ''agent1'') \<and>
     select_suggestion world1 (suggestion_id (rejection_without_reason\<lparr>suggestion_id := ''s2''\<rparr>)) \<noteq> None \<and>
     select_ticket world1 (ticket_id (rejection_without_reason\<lparr>suggestion_id := ''s2''\<rparr>)) \<noteq> None \<and>
     suggestionError env_ok = None"
    using truthy_agent1 world1_s2 world1_t1
    by (simp add: rejection_without_reason_def env_ok_def)
  have "sg_status (?new ! 1) = new_status (feedback_type (rejection_without_reason\<lparr>suggestion_id := ''s2''\<rparr>))"
    using T pre mem id by (simp add: rejection_without_reason_def)
  then show ?thesis
    by (simp add: new_status_def rejection_without_reason_def world1_def mk_suggestion_def)
qed


text \<open>
  C10. Whenever \<open>storeFeedback\<close> returns, the row it has added to \<open>ai_feedback_events\<close>
  holds the constant \<open>'0 seconds'\<close> as its \<open>time_to_feedback\<close>, whatever the clock and the
  creation time of the suggestion are; the time between the creation of the suggestion and
  the feedback is in the output of the trace, as \<open>time_to_feedback_ms\<close>.
\<close>
theorem time_to_feedback_stored_as_constant:
  assumes "snd (storeFeedback user_id e w fb) = Inr ()"
  shows "\<exists>agent sg tr.
           user_id = Some agent \<and> select_suggestion w (suggestion_id fb) = Some sg \<and>
           ai_feedback_events (fst (storeFeedback user_id e w fb)) =
             ai_feedback_events w @ [feedback_row agent e fb] \<and>
           row_time_to_feedback (feedback_row agent e fb) = ''0 seconds'' \<and>
           langfuse_traces (fst (storeFeedback user_id e w fb)) = langfuse_traces w @ [tr] \<and>
           trace_out tr = Some (trace_result e sg fb) \<and>
           time_to_feedback_ms (trace_result e sg fb) = now e - created_at sg"
proof -
  from assms have u: "truthy user_id"
    and "select_suggestion w (suggestion_id fb) \<noteq> None"
    and "select_ticket w (ticket_id fb) \<noteq> None"
    and a: "suggestionError e = None" and b: "feedbackError e = None"
    by (simp_all add: storeFeedback_Inr_iff)
  then obtain sg tk where sg: "select_suggestion w (suggestion_id fb) = Some sg"
    and tk: "select_ticket w (ticket_id fb) = Some tk" by auto
  from truthy_Some[OF u] obtain agent where agent: "user_id = Some agent" by auto
  note run = storeFeedback_succeeds[OF u sg tk a b]
  have "time_to_feedback_ms (trace_result e sg fb) = now e - created_at sg"
    by (simp add: trace_result_def Let_def)
  moreover have "row_time_to_feedback (feedback_row agent e fb) = ''0 seconds''"
    by (simp add: feedback_row_def)
  moreover have "ai_feedback_events (fst (storeFeedback user_id e w fb)) =
             ai_feedback_events w @ [feedback_row (the user_id) e fb]"
    by (simp add: run)
  then have "ai_feedback_events (fst (storeFeedback user_id e w fb)) =
             ai_feedback_events w @ [feedback_row agent e fb]"
    by (simp add: agent)
  moreover have "\<exists>tr. langfuse_traces (fst (storeFeedback user_id e w fb)) = langfuse_traces w @ [tr] \<and>
           trace_out tr = Some (trace_result e sg fb)"
    by (simp add: run)
  ultimately show ?thesis
    using sg agent by blast
qed

theorem time_to_feedback_witness:
  "map row_time_to_feedback
     (ai_feedback_events (fst (storeFeedback (Some ''agent1'') env_ok world1
        rejection_without_reason))) = [''0 seconds''] \<and>
   map (\<lambda>tr. map_option time_to_feedback_ms (trace_out tr))
     (langfuse_traces (fst (storeFeedback (Some ''agent1'') env_ok world1
        rejection_without_reason))) = [Some 4000]"
proof -
  have ok: "snd (storeFeedback (Some ''agent1'') env_ok world1 rejection_without_reason) = Inr ()"
    using truthy_agent1 world1_s1 world1_t1
    by (simp add: storeFeedback_Inr_iff rejection_without_reason_def env_ok_def)
  from time_to_feedback_stored_as_constant[OF ok] obtain agent sg tr where
    sg: "select_suggestion world1 (suggestion_id rejection_without_reason) = Some sg"
    and ev: "ai_feedback_events (fst (storeFeedback (Some ''agent1'') env_ok world1
               rejection_without_reason)) = ai_feedback_events world1 @ [feedback_row agent env_ok rejection_without_reason]"
    and c: "row_time_to_feedback (feedback_row agent env_ok rejection_without_reason) = ''0 seconds''"
    and tr: "langfuse_traces (fst (storeFeedback (Some ''agent1'') env_ok world1
               rejection_without_reason)) = langfuse_traces world1 @ [tr]"
    and out: "trace_out tr = Some (trace_result env_ok sg rejection_without_reason)"
    and ms: "time_to_feedback_ms (trace_result env_ok sg rejection_without_reason) = now env_ok - created_at sg"
    by blast
  have "sg = mk_suggestion ''s1'' Pending"
    using sg world1_s1 by (simp add: rejection_without_reason_def)
  then have "time_to_feedback_ms (trace_result env_ok sg rejection_without_reason) = 4000"
    using ms by (simp add: env_ok_def mk_suggestion_def)
  then show ?thesis
    using ev c tr out by (simp add: world1_def)
qed

section \<open>Rejecting: properties\<close>


text \<open>Accepting and rejecting keep each identifier at most once in the list.\<close>

lemma rejectSuggestion_distinct:
  assumes "distinct (ids cur)"
  shows "distinct (ids (fst (fst (rejectSuggestion user_id e ticketId called_at snapshot
                                   (cur, w) sid reason extra))))"
proof -
  obtain w' r where run: "storeFeedback user_id e w
      (rejection_feedback ticketId called_at sid reason extra) = (w', r)"
    by (cases "storeFeedback user_id e w (rejection_feedback ticketId called_at sid reason extra)")
  have d: "distinct (ids (remove_id sid cur))"
    using assms by (simp add: ids_remove_id)
  have d': "distinct (ids (remove_id sid cur @ [f]))"
    if "find (\<lambda>s. sg_id (suggestion s) = sid) snapshot = Some f" for f
  proof -
    from that have "sg_id (suggestion f) = sid" by (auto simp: find_Some_iff)
    then have "ids (remove_id sid cur @ [f]) = filter (\<lambda>j. j \<noteq> sid) (ids cur) @ [sid]"
      using ids_remove_id[of sid cur] by (simp add: ids_def)
    then show ?thesis using assms by simp
  qed
  show ?thesis
  proof (cases r)
    case (Inr u)
    then show ?thesis using d by (simp add: rejectSuggestion_def run)
  next
    case (Inl err)
    then show ?thesis
      using d d' by (cases "find (\<lambda>s. sg_id (suggestion s) = sid) snapshot")
                     (simp_all add: rejectSuggestion_def run)
  qed
qed

lemma acceptSuggestion_distinct:
  assumes "distinct (ids cur)"
  shows "distinct (ids (fst (fst (acceptSuggestion user_id e ticketId called_at (cur, w) sid))))"
proof -
  obtain w' r where run: "storeFeedback user_id e w (approval_feedback ticketId called_at sid) = (w', r)"
    by (cases "storeFeedback user_id e w (approval_feedback ticketId called_at sid)")
  show ?thesis
    using assms by (cases r) (simp_all add: acceptSuggestion_def run ids_remove_id)
qed



end
